theory Spec2Isabelle
  imports Main "HOL-Library.Word"
begin

unbundle bit_operations_syntax

section \<open>The assembler (assembler.py)\<close>

type_synonym byte = "8 word"

text \<open>
  \<^verbatim>\<open>class Opcode(Enum)\<close>: the four operation codes and their values. The type is closed,
  so the final \<^verbatim>\<open>else\<close> branch of \<^verbatim>\<open>to_binary\<close> (unknown opcode) and the final
  \<^verbatim>\<open>return 0\<close> of \<^verbatim>\<open>get_size\<close> have no input that reaches them.
\<close>

datatype Opcode = LOAD_CONST | READ_MEM | WRITE_MEM | SGN

fun opcode_value :: "Opcode \<Rightarrow> int" where
  "opcode_value LOAD_CONST = 74"
| "opcode_value READ_MEM = 135"
| "opcode_value WRITE_MEM = 213"
| "opcode_value SGN = 154"

text \<open>\<^verbatim>\<open>@dataclass class Instruction\<close>; the operand is \<^verbatim>\<open>Optional[int]\<close>.\<close>

record Instruction =
  opcode :: Opcode
  operand :: "int option"
  line_number :: int

text \<open>
  The exceptions \<^verbatim>\<open>to_binary\<close> can raise: the two \<^verbatim>\<open>ValueError\<close>s it raises itself
  (a missing operand, with the line; an offset above 63, with the line and the offset)
  and the \<^verbatim>\<open>OverflowError\<close> of \<^verbatim>\<open>int.to_bytes\<close>.
\<close>

datatype asm_error =
    MissingOperand int
  | OperandOutOfRange int int
  | OverflowError

text \<open>
  \<^verbatim>\<open>n.to_bytes(length, 'little')\<close>, unsigned: raises \<^verbatim>\<open>OverflowError\<close> on a negative
  \<open>n\<close> and on one that does not fit; byte \<open>i\<close> of the result is \<open>n div 256 ^ i mod 256\<close>.
\<close>

definition to_bytes :: "int \<Rightarrow> nat \<Rightarrow> asm_error + byte list" where
  "to_bytes n len =
     (if n < 0 \<or> 256 ^ len \<le> n then Inl OverflowError
      else Inr (map (\<lambda>i. word_of_int (n div 256 ^ i)) [0..<len]))"

text \<open>The \<^verbatim>\<open>+\<close> of two byte strings, each of which may have raised; the left one first.\<close>

definition bytes_add :: "asm_error + byte list \<Rightarrow> asm_error + byte list \<Rightarrow> asm_error + byte list" where
  "bytes_add a b =
     (case a of Inl e \<Rightarrow> Inl e
      | Inr x \<Rightarrow> (case b of Inl e \<Rightarrow> Inl e | Inr y \<Rightarrow> Inr (x @ y)))"

definition to_binary :: "Instruction \<Rightarrow> asm_error + byte list" where
  "to_binary i =
     (case opcode i of
        LOAD_CONST \<Rightarrow>
          (case operand i of
             None \<Rightarrow> Inl (MissingOperand (line_number i))
           | Some v \<Rightarrow> bytes_add (to_bytes (opcode_value (opcode i)) 1) (to_bytes v 4))
      | READ_MEM \<Rightarrow>
          (case operand i of
             None \<Rightarrow> Inl (MissingOperand (line_number i))
           | Some v \<Rightarrow>
               if v > 0x3F then Inl (OperandOutOfRange (line_number i) v)
               else bytes_add (to_bytes (opcode_value (opcode i)) 1) (to_bytes v 1))
      | WRITE_MEM \<Rightarrow>
          (case operand i of
             None \<Rightarrow> Inl (MissingOperand (line_number i))
           | Some v \<Rightarrow> bytes_add (to_bytes (opcode_value (opcode i)) 1) (to_bytes v 4))
      | SGN \<Rightarrow> to_bytes (opcode_value (opcode i)) 1)"

definition get_size :: "Instruction \<Rightarrow> nat" where
  "get_size i =
     (case opcode i of LOAD_CONST \<Rightarrow> 5 | READ_MEM \<Rightarrow> 2 | WRITE_MEM \<Rightarrow> 5 | SGN \<Rightarrow> 1)"

text \<open>
  \<^verbatim>\<open>Assembler.assemble_to_binary\<close>: the encodings in order; the first instruction that
  raises aborts the whole assembly.
\<close>

fun assemble_to_binary :: "Instruction list \<Rightarrow> asm_error + byte list" where
  "assemble_to_binary [] = Inr []"
| "assemble_to_binary (i # rest) =
     (case to_binary i of
        Inl e \<Rightarrow> Inl e
      | Inr b \<Rightarrow> (case assemble_to_binary rest of Inl e \<Rightarrow> Inl e | Inr bs \<Rightarrow> Inr (b @ bs)))"

text \<open>The instructions the front end builds for \<^verbatim>\<open>load v\<close>, \<^verbatim>\<open>read off\<close>, \<^verbatim>\<open>write a\<close>, \<^verbatim>\<open>sgn\<close>.\<close>

definition load_instr :: "int \<Rightarrow> Instruction" where
  "load_instr v = \<lparr>opcode = LOAD_CONST, operand = Some v, line_number = 0\<rparr>"

definition read_instr :: "int \<Rightarrow> Instruction" where
  "read_instr off = \<lparr>opcode = READ_MEM, operand = Some off, line_number = 0\<rparr>"

definition write_instr :: "int \<Rightarrow> Instruction" where
  "write_instr a = \<lparr>opcode = WRITE_MEM, operand = Some a, line_number = 0\<rparr>"

definition sgn_instr :: Instruction where
  "sgn_instr = \<lparr>opcode = SGN, operand = None, line_number = 0\<rparr>"

section \<open>The interpreter (interpreter.py)\<close>

text \<open>
  \<^verbatim>\<open>struct.unpack('<I', bs)\<close> on the bytes of a slice: the little-endian unsigned value.
\<close>

fun unpack_le :: "byte list \<Rightarrow> int" where
  "unpack_le [] = 0"
| "unpack_le (b # bs) = uint b + 256 * unpack_le bs"


text \<open>
  The interpreter object. The stack is a Python list used from its end:
  \<^verbatim>\<open>append\<close> adds the top, \<^verbatim>\<open>pop()\<close> removes it, so the list reads bottom to top.
  Stack values are Python integers; the two memories are byte strings.
\<close>

record uvm =
  code_memory :: "byte list"
  program_size :: nat
  data_memory :: "byte list"
  stack :: "int list"
  ip :: nat

text \<open>
  The exceptions of a run, with what each message carries: the two truncation errors
  and the stack underflow are fixed strings; an invalid address names the instruction
  and the address; an unknown opcode names the opcode and the offset \<^verbatim>\<open>start_ip\<close> of
  the instruction. \<open>IndexError\<close> and \<open>StructError\<close> are what Python itself raises when
  \<^verbatim>\<open>program_size\<close> is larger than the code (no state built by \<^verbatim>\<open>load_program\<close>).
\<close>

datatype run_error =
    IpBeyondEnd
  | NotEnoughBytes
  | StackUnderflow
  | InvalidAddress string int
  | UnknownOpcode int nat
  | IndexError
  | StructError

text \<open>
  An exception leaves the object as it was when it was raised, so a failed operation
  returns the error together with that state.
\<close>

type_synonym 'a result = "(run_error \<times> uvm) + ('a \<times> uvm)"

definition uvm_init :: "nat \<Rightarrow> uvm" where
  "uvm_init data_memory_size =
     \<lparr>code_memory = [], program_size = 0,
      data_memory = replicate data_memory_size 0, stack = [], ip = 0\<rparr>"

definition load_program :: "byte list \<Rightarrow> uvm \<Rightarrow> uvm" where
  "load_program binary_data s =
     s\<lparr>code_memory := binary_data, program_size := length binary_data\<rparr>"

definition read_byte_from_code :: "uvm \<Rightarrow> int result" where
  "read_byte_from_code s =
     (if ip s \<ge> program_size s then Inl (IpBeyondEnd, s)
      else if ip s \<ge> length (code_memory s) then Inl (IndexError, s)
      else Inr (uint (code_memory s ! ip s), s\<lparr>ip := ip s + 1\<rparr>))"

definition read_dword_from_code :: "uvm \<Rightarrow> int result" where
  "read_dword_from_code s =
     (if ip s + 4 > program_size s then Inl (NotEnoughBytes, s)
      else let bs = take 4 (drop (ip s) (code_memory s)) in
        if length bs \<noteq> 4 then Inl (StructError, s)
        else Inr (unpack_le bs, s\<lparr>ip := ip s + 4\<rparr>))"

definition push :: "int \<Rightarrow> uvm \<Rightarrow> uvm" where
  "push v s = s\<lparr>stack := stack s @ [v]\<rparr>"

definition pop :: "uvm \<Rightarrow> int result" where
  "pop s =
     (if stack s = [] then Inl (StackUnderflow, s)
      else Inr (last (stack s), s\<lparr>stack := butlast (stack s)\<rparr>))"

text \<open>
  The \<^verbatim>\<open>SGN\<close> branch: \<^verbatim>\<open>struct.unpack('<b', bytes([byte_val]))\<close> reads the byte as a
  signed 8-bit value, and the result is its sign.
\<close>

definition sgn_result :: "byte \<Rightarrow> int" where
  "sgn_result byte_val =
     (let signed_val = sint byte_val in
      if signed_val > 0 then 1 else if signed_val < 0 then - 1 else 0)"

text \<open>
  One pass through the body of the \<^verbatim>\<open>while\<close> loop of \<^verbatim>\<open>execute\<close>: fetch the opcode,
  dispatch, execute. \<^verbatim>\<open>value & 0xFF\<close> is a byte, stored as such.
\<close>

definition cycle :: "uvm \<Rightarrow> (run_error \<times> uvm) + uvm" where
  "cycle s =
     (let start_ip = ip s in
      case read_byte_from_code s of
        Inl e \<Rightarrow> Inl e
      | Inr (opcode_byte, s1) \<Rightarrow>
          if opcode_byte = 74 then
            (case read_dword_from_code s1 of
               Inl e \<Rightarrow> Inl e
             | Inr (constant, s2) \<Rightarrow> Inr (push constant s2))
          else if opcode_byte = 135 then
            (case read_byte_from_code s1 of
               Inl e \<Rightarrow> Inl e
             | Inr (offset_byte, s2) \<Rightarrow>
                 let offset = offset_byte AND 0x3F in
                 (case pop s2 of
                    Inl e \<Rightarrow> Inl e
                  | Inr (base_addr, s3) \<Rightarrow>
                      let addr = base_addr + offset in
                      if \<not> (0 \<le> addr \<and> addr < int (length (data_memory s3)))
                      then Inl (InvalidAddress ''READ_MEM'' addr, s3)
                      else Inr (push (uint (data_memory s3 ! nat addr)) s3)))
          else if opcode_byte = 213 then
            (case read_dword_from_code s1 of
               Inl e \<Rightarrow> Inl e
             | Inr (addr, s2) \<Rightarrow>
                 (case pop s2 of
                    Inl e \<Rightarrow> Inl e
                  | Inr (popped, s3) \<Rightarrow>
                      let val = popped AND 0xFF in
                      if \<not> (0 \<le> addr \<and> addr < int (length (data_memory s3)))
                      then Inl (InvalidAddress ''WRITE_MEM'' addr, s3)
                      else Inr (s3\<lparr>data_memory := (data_memory s3)[nat addr := word_of_int val]\<rparr>)))
          else if opcode_byte = 154 then
            (case pop s1 of
               Inl e \<Rightarrow> Inl e
             | Inr (addr, s2) \<Rightarrow>
                 if \<not> (0 \<le> addr \<and> addr < int (length (data_memory s2)))
                 then Inl (InvalidAddress ''SGN'' addr, s2)
                 else Inr (push (sgn_result (data_memory s2 ! nat addr)) s2))
          else Inl (UnknownOpcode opcode_byte start_ip, s1))"

text \<open>
  The loop of \<^verbatim>\<open>execute\<close>, with its counter \<^verbatim>\<open>instruction_count\<close>. The counter is a
  local variable: a normal end returns it with the final state, an exception loses it.
  The loop is total: each pass that does not raise moves \<^verbatim>\<open>ip\<close> forward.
\<close>

function execute_loop :: "uvm \<Rightarrow> nat \<Rightarrow> (run_error \<times> uvm) + (nat \<times> uvm)" where
  "execute_loop s instruction_count =
     (if ip s < program_size s then
        (case cycle s of
           Inl e \<Rightarrow> Inl e
         | Inr s' \<Rightarrow> execute_loop s' (instruction_count + 1))
      else Inr (instruction_count, s))"
  by pat_completeness auto
termination
proof (relation "measure (\<lambda>(s, n). program_size s - ip s)")
  show "wf (measure (\<lambda>(s, n). program_size s - ip s))"
    by simp
next
  fix s :: uvm and instruction_count :: nat and s'
  assume running: "ip s < program_size s" and ok: "cycle s = Inr s'"
  from ok have "ip s < ip s' \<and> program_size s' = program_size s"
    by (auto simp: cycle_def read_byte_from_code_def read_dword_from_code_def
          push_def pop_def Let_def
        split: if_splits sum.splits prod.splits)
  with running show "((s', instruction_count + 1), (s, instruction_count))
      \<in> measure (\<lambda>(s, n). program_size s - ip s)"
    by (simp add: diff_less_mono2)
qed

definition execute :: "uvm \<Rightarrow> (run_error \<times> uvm) + (nat \<times> uvm)" where
  "execute s = execute_loop s 0"

text \<open>A fresh interpreter with 1024 bytes of data memory, as \<^verbatim>\<open>main\<close> builds it, running a program.\<close>

definition run :: "byte list \<Rightarrow> (run_error \<times> uvm) + (nat \<times> uvm)" where
  "run binary_data = execute (load_program binary_data (uvm_init 1024))"


text \<open>
  The instruction offset that an exception's message carries, if it carries one: only
  the unknown-opcode message is formatted with \<^verbatim>\<open>start_ip\<close>.
\<close>

fun error_ip :: "run_error \<Rightarrow> nat option" where
  "error_ip (UnknownOpcode opcode_byte start_ip) = Some start_ip"
| "error_ip _ = None"

text \<open>
  Well-formed binary programs, in the specification's words: only the four valid
  opcodes, each followed by its full fixed-width operand (four bytes after 74 and 213,
  one after 135, none after 154). \<open>instr_count\<close> is \<open>None\<close> on a byte string that is
  not well formed, and the number of its instructions otherwise.
\<close>

fun instr_count :: "byte list \<Rightarrow> nat option" where
  "instr_count [] = Some 0"
| "instr_count (b # bs) =
     (if b = 74 \<or> b = 213 then
        (if length bs < 4 then None else map_option Suc (instr_count (drop 4 bs)))
      else if b = 135 then
        (if length bs < 1 then None else map_option Suc (instr_count (drop 1 bs)))
      else if b = 154 then map_option Suc (instr_count bs)
      else None)"

section \<open>Bytes and integers\<close>

lemma uint_byte_of_int: "uint (word_of_int x :: byte) = x mod 256"
  by (simp add: uint_word_of_int)

lemma uint_byte_bounds: "0 \<le> uint (b :: byte) \<and> uint b < 256"
  using uint_bounded [of b] by simp

lemma unpack_le_to_bytes4:
  assumes "0 \<le> v" "v < 2 ^ 32"
  shows "unpack_le [word_of_int v, word_of_int (v div 256), word_of_int (v div 65536),
           word_of_int (v div 16777216) :: byte] = v"
proof -
  have a: "v div 65536 = v div 256 div 256" "v div 16777216 = v div 256 div 256 div 256"
    by (simp_all add: div_mult2_eq [symmetric])
  have "v div 16777216 < 256" using assms by simp
  moreover have "0 \<le> v div 16777216" using assms by simp
  ultimately have top: "v div 16777216 mod 256 = v div 16777216" by simp
  show ?thesis
    unfolding unpack_le.simps uint_byte_of_int top
    unfolding a
    by (simp add: algebra_simps)
qed

lemma to_bytes4:
  "0 \<le> v \<Longrightarrow> v < 2 ^ 32 \<Longrightarrow>
   to_bytes v 4 = Inr [word_of_int v, word_of_int (v div 256), word_of_int (v div 65536),
                       word_of_int (v div 16777216)]"
  by (simp add: to_bytes_def upt_rec)

lemma to_bytes1: "0 \<le> v \<Longrightarrow> v < 256 \<Longrightarrow> to_bytes v (Suc 0) = Inr [word_of_int v]"
  by (simp add: to_bytes_def)

lemma sint_byte: "sint (b :: byte) = (if uint b < 128 then uint b else uint b - 256)"
proof -
  from int_word_sint [of "uint b", where 'a = 8]
  have s: "sint b = (uint b + 128) mod 256 - 128" by simp
  show ?thesis
  proof (cases "uint b < 128")
    case True
    then have "(uint b + 128) mod 256 = uint b + 128"
      using uint_byte_bounds [of b] by simp
    with s True show ?thesis by simp
  next
    case False
    then have "(uint b + 128) mod 256 = uint b - 128"
      using uint_byte_bounds [of b] by (simp add: mod_pos_geq)
    with s False show ?thesis by simp
  qed
qed

lemma sgn_result_cases:
  "sgn_result b = (if b = 0 then 0 else if uint b < 128 then 1 else - 1)"
proof -
  have p: "0 < uint b \<longleftrightarrow> b \<noteq> 0"
    using uint_ge_0 [of b] uint_0_iff [of b] by linarith
  have q: "uint b < 256"
    using uint_byte_bounds [of b] by simp
  show ?thesis
    using q by (auto simp: sgn_result_def sint_byte Let_def p)
qed

lemma and_ff: "(v::int) AND 0xFF = v mod 256"
proof -
  have "v AND mask 8 = v mod 2 ^ 8"
    by (simp only: take_bit_eq_mask [symmetric] take_bit_int_def)
  then show ?thesis by (simp add: mask_eq_exp_minus_1)
qed

lemma and_3f: "(v::int) AND 0x3F = v mod 64"
proof -
  have "v AND mask 6 = v mod 2 ^ 6"
    by (simp only: take_bit_eq_mask [symmetric] take_bit_int_def)
  then show ?thesis by (simp add: mask_eq_exp_minus_1)
qed

section \<open>The encoder\<close>

text \<open>
  C1. Each of the four instruction forms is encoded with the byte layout of the ISA
  table. \<^verbatim>\<open>load v\<close>, for \<open>v\<close> an unsigned 32-bit value, is the byte 74 and then the four
  bytes of \<open>v\<close>, least significant first (read back as a little-endian unsigned value
  they give \<open>v\<close>); \<^verbatim>\<open>read off\<close>, for \<open>off\<close> from 0 to 63, is the byte 135 and the byte
  \<open>off\<close>; \<^verbatim>\<open>write a\<close> is the byte 213 and the four bytes of \<open>a\<close>; \<^verbatim>\<open>sgn\<close> is the single
  byte 154, whatever its operand field holds. \<^verbatim>\<open>load 468\<close> gives 4A D4 01 00 00.
\<close>

theorem to_binary_layout:
  fixes v off a l :: int
  shows "(0 \<le> v \<and> v < 2 ^ 32 \<longrightarrow>
            to_binary \<lparr>opcode = LOAD_CONST, operand = Some v, line_number = l\<rparr> =
              Inr [74, word_of_int v, word_of_int (v div 256), word_of_int (v div 65536),
                   word_of_int (v div 16777216)]
          \<and> unpack_le [word_of_int v, word_of_int (v div 256), word_of_int (v div 65536),
                        word_of_int (v div 16777216)] = v)
       \<and> (0 \<le> off \<and> off \<le> 63 \<longrightarrow>
            to_binary \<lparr>opcode = READ_MEM, operand = Some off, line_number = l\<rparr> =
              Inr [135, word_of_int off]
          \<and> uint (word_of_int off :: byte) = off)
       \<and> (0 \<le> a \<and> a < 2 ^ 32 \<longrightarrow>
            to_binary \<lparr>opcode = WRITE_MEM, operand = Some a, line_number = l\<rparr> =
              Inr [213, word_of_int a, word_of_int (a div 256), word_of_int (a div 65536),
                   word_of_int (a div 16777216)]
          \<and> unpack_le [word_of_int a, word_of_int (a div 256), word_of_int (a div 65536),
                        word_of_int (a div 16777216)] = a)
       \<and> to_binary \<lparr>opcode = SGN, operand = x, line_number = l\<rparr> = Inr [154]
       \<and> to_binary (load_instr 468) = Inr [0x4A, 0xD4, 0x01, 0x00, 0x00]"
proof (intro conjI impI)
  assume "0 \<le> v \<and> v < 2 ^ 32"
  then show "to_binary \<lparr>opcode = LOAD_CONST, operand = Some v, line_number = l\<rparr> =
      Inr [74, word_of_int v, word_of_int (v div 256), word_of_int (v div 65536),
           word_of_int (v div 16777216)]"
    by (simp add: to_binary_def bytes_add_def to_bytes4 to_bytes1)
next
  assume "0 \<le> v \<and> v < 2 ^ 32"
  then show "unpack_le [word_of_int v, word_of_int (v div 256), word_of_int (v div 65536),
      word_of_int (v div 16777216) :: byte] = v"
    by (intro unpack_le_to_bytes4) simp_all
next
  assume "0 \<le> off \<and> off \<le> 63"
  then show "to_binary \<lparr>opcode = READ_MEM, operand = Some off, line_number = l\<rparr> =
      Inr [135, word_of_int off]"
    by (simp add: to_binary_def bytes_add_def to_bytes1)
next
  assume "0 \<le> off \<and> off \<le> 63"
  then show "uint (word_of_int off :: byte) = off"
    by (simp add: uint_byte_of_int)
next
  assume "0 \<le> a \<and> a < 2 ^ 32"
  then show "to_binary \<lparr>opcode = WRITE_MEM, operand = Some a, line_number = l\<rparr> =
      Inr [213, word_of_int a, word_of_int (a div 256), word_of_int (a div 65536),
           word_of_int (a div 16777216)]"
    by (simp add: to_binary_def bytes_add_def to_bytes4 to_bytes1)
next
  assume "0 \<le> a \<and> a < 2 ^ 32"
  then show "unpack_le [word_of_int a, word_of_int (a div 256), word_of_int (a div 65536),
      word_of_int (a div 16777216) :: byte] = a"
    by (intro unpack_le_to_bytes4) simp_all
next
  show "to_binary \<lparr>opcode = SGN, operand = x, line_number = l\<rparr> = Inr [154]"
    by (simp add: to_binary_def to_bytes1)
next
  show "to_binary (load_instr 468) = Inr [0x4A, 0xD4, 0x01, 0x00, 0x00]"
    by (simp add: load_instr_def to_binary_def bytes_add_def to_bytes4 to_bytes1)
qed

theorem to_binary_layout_witness:
  "(0::int) \<le> 468 \<and> (468::int) < 2 ^ 32 \<and> (0::int) \<le> 15 \<and> (15::int) \<le> 63
   \<and> (0::int) \<le> 224 \<and> (224::int) < 2 ^ 32
   \<and> to_binary \<lparr>opcode = LOAD_CONST, operand = Some 468, line_number = 1\<rparr>
       = Inr [0x4A, 0xD4, 0x01, 0x00, 0x00]
   \<and> to_binary \<lparr>opcode = READ_MEM, operand = Some 15, line_number = 1\<rparr> = Inr [0x87, 0x0F]
   \<and> to_binary \<lparr>opcode = WRITE_MEM, operand = Some 224, line_number = 1\<rparr>
       = Inr [0xD5, 0xE0, 0x00, 0x00, 0x00]
   \<and> to_binary \<lparr>opcode = SGN, operand = None, line_number = 1\<rparr> = Inr [0x9A]"
  using to_binary_layout [where v = 468 and off = 15 and a = 224 and l = 1 and x = None]
  by simp

text \<open>
  C5. Encoding \<^verbatim>\<open>read off\<close> raises the offset-too-large error exactly when \<open>off\<close> is
  greater than 63: it does at 64, and at 63 the encoding succeeds with operand byte 3F.
\<close>

theorem read_offset_range:
  "(to_binary \<lparr>opcode = READ_MEM, operand = Some off, line_number = l\<rparr>
      = Inl (OperandOutOfRange l off)) = (63 < off)
   \<and> (\<forall>l' v. to_binary \<lparr>opcode = READ_MEM, operand = Some off, line_number = l\<rparr>
      = Inl (OperandOutOfRange l' v) \<longrightarrow> 63 < off)
   \<and> to_binary \<lparr>opcode = READ_MEM, operand = Some 64, line_number = l\<rparr>
      = Inl (OperandOutOfRange l 64)
   \<and> to_binary \<lparr>opcode = READ_MEM, operand = Some 63, line_number = l\<rparr> = Inr [0x87, 0x3F]"
  by (auto simp: to_binary_def bytes_add_def to_bytes_def)

theorem read_offset_range_witness:
  "to_binary \<lparr>opcode = READ_MEM, operand = Some 100, line_number = 7\<rparr>
     = Inl (OperandOutOfRange 7 100) \<and> (63::int) < 100"
  using read_offset_range [where off = 100 and l = 7]
  by simp

text \<open>
  C7. Whenever an instruction encodes (its operand is legal for its opcode), the size
  \<^verbatim>\<open>get_size\<close> reports is the length of the encoding: 5 for \<^verbatim>\<open>load\<close>, 2 for \<^verbatim>\<open>read\<close>,
  5 for \<^verbatim>\<open>write\<close>, 1 for \<^verbatim>\<open>sgn\<close>.
\<close>

theorem get_size_is_encoded_length:
  assumes "to_binary i = Inr bs"
  shows "length bs = get_size i
       \<and> get_size i = (case opcode i of LOAD_CONST \<Rightarrow> 5 | READ_MEM \<Rightarrow> 2 | WRITE_MEM \<Rightarrow> 5 | SGN \<Rightarrow> 1)
       \<and> length bs = (if opcode i = LOAD_CONST then 5 else if opcode i = READ_MEM then 2
                       else if opcode i = WRITE_MEM then 5 else 1)"
  using assms
  by (auto simp: to_binary_def get_size_def to_bytes_def bytes_add_def
      split: Opcode.splits option.splits if_splits)

theorem get_size_is_encoded_length_witness:
  "to_binary (read_instr 15) = Inr [0x87, 0x0F]
   \<and> length [0x87, 0x0F :: byte] = get_size (read_instr 15)
   \<and> get_size (read_instr 15) = 2"
proof -
  have enc: "to_binary (read_instr 15) = Inr [0x87, 0x0F]"
    by (simp add: read_instr_def to_binary_def bytes_add_def to_bytes1)
  from get_size_is_encoded_length [OF enc] enc show ?thesis
    by (simp add: read_instr_def)
qed

section \<open>One cycle of the interpreter\<close>

lemma cycle_load:
  assumes "program_size s = length (code_memory s)" "ip s + 5 \<le> program_size s"
    "code_memory s ! ip s = 74"
  shows "cycle s = Inr (s\<lparr>ip := ip s + 5,
           stack := stack s @ [unpack_le (take 4 (drop (ip s + 1) (code_memory s)))]\<rparr>)"
  using assms
  by (simp add: cycle_def read_byte_from_code_def read_dword_from_code_def push_def)

lemma cycle_read:
  assumes "program_size s = length (code_memory s)" "ip s + 2 \<le> program_size s"
    "code_memory s ! ip s = 135"
  shows "cycle s =
    (if stack s = [] then Inl (StackUnderflow, s\<lparr>ip := ip s + 2\<rparr>)
     else let addr = last (stack s) + (uint (code_memory s ! (ip s + 1)) AND 0x3F) in
       if 0 \<le> addr \<and> addr < int (length (data_memory s))
       then Inr (s\<lparr>ip := ip s + 2,
              stack := butlast (stack s) @ [uint (data_memory s ! nat addr)]\<rparr>)
       else Inl (InvalidAddress ''READ_MEM'' addr, s\<lparr>ip := ip s + 2, stack := butlast (stack s)\<rparr>))"
  using assms
  by (simp add: cycle_def read_byte_from_code_def pop_def push_def Let_def)

lemma cycle_write:
  assumes "program_size s = length (code_memory s)" "ip s + 5 \<le> program_size s"
    "code_memory s ! ip s = 213"
  shows "cycle s =
    (if stack s = [] then Inl (StackUnderflow, s\<lparr>ip := ip s + 5\<rparr>)
     else let addr = unpack_le (take 4 (drop (ip s + 1) (code_memory s))) in
       if 0 \<le> addr \<and> addr < int (length (data_memory s))
       then Inr (s\<lparr>ip := ip s + 5, stack := butlast (stack s),
              data_memory := (data_memory s)[nat addr := word_of_int (last (stack s) AND 0xFF)]\<rparr>)
       else Inl (InvalidAddress ''WRITE_MEM'' addr, s\<lparr>ip := ip s + 5, stack := butlast (stack s)\<rparr>))"
  using assms
  by (simp add: cycle_def read_byte_from_code_def read_dword_from_code_def pop_def Let_def)

lemma cycle_sgn:
  assumes "program_size s = length (code_memory s)" "ip s + 1 \<le> program_size s"
    "code_memory s ! ip s = 154"
  shows "cycle s =
    (if stack s = [] then Inl (StackUnderflow, s\<lparr>ip := ip s + 1\<rparr>)
     else let addr = last (stack s) in
       if 0 \<le> addr \<and> addr < int (length (data_memory s))
       then Inr (s\<lparr>ip := ip s + 1,
              stack := butlast (stack s) @ [sgn_result (data_memory s ! nat addr)]\<rparr>)
       else Inl (InvalidAddress ''SGN'' addr, s\<lparr>ip := ip s + 1, stack := butlast (stack s)\<rparr>))"
  using assms
  by (simp add: cycle_def read_byte_from_code_def pop_def push_def Let_def)

lemma cycle_unknown:
  assumes "program_size s = length (code_memory s)" "ip s < program_size s"
    "code_memory s ! ip s \<notin> {74, 135, 213, 154}"
  shows "cycle s = Inl (UnknownOpcode (uint (code_memory s ! ip s)) (ip s), s\<lparr>ip := ip s + 1\<rparr>)"
  using assms
  by (simp add: cycle_def read_byte_from_code_def word_uint_eq_iff)

lemma unpack_le_nonneg: "0 \<le> unpack_le bs"
  by (induction bs) simp_all

text \<open>
  C2. A \<^verbatim>\<open>READ_MEM\<close> instruction executed on a non-empty stack pops one value
  \<open>base\<close> and takes the address \<open>base + (offset_byte AND 0x3F)\<close>, the operand byte
  masked to its low six bits. If the address is outside the data memory it raises the
  invalid-address error; otherwise it pushes the byte stored there, an unsigned value
  from 0 to 255. \<^verbatim>\<open>load 0; read 5\<close> with \<open>data[5] = 200\<close> ends with the stack \<open>[200]\<close>.
\<close>

theorem read_mem_semantics:
  assumes "program_size s = length (code_memory s)"
    and "ip s + 2 \<le> program_size s"
    and "code_memory s ! ip s = 135"
    and "stack s \<noteq> []"
    and "addr = last (stack s) + (uint (code_memory s ! (ip s + 1)) AND 0x3F)"
  shows "(0 \<le> addr \<and> addr < int (length (data_memory s)) \<longrightarrow>
            cycle s = Inr (s\<lparr>ip := ip s + 2,
                       stack := butlast (stack s) @ [uint (data_memory s ! nat addr)]\<rparr>)
            \<and> 0 \<le> uint (data_memory s ! nat addr) \<and> uint (data_memory s ! nat addr) \<le> 255)
       \<and> (\<not> (0 \<le> addr \<and> addr < int (length (data_memory s))) \<longrightarrow>
            cycle s = Inl (InvalidAddress ''READ_MEM'' addr,
                       s\<lparr>ip := ip s + 2, stack := butlast (stack s)\<rparr>))
       \<and> uint (code_memory s ! (ip s + 1)) AND 0x3F = uint (code_memory s ! (ip s + 1)) mod 64
       \<and> assemble_to_binary [load_instr 0, read_instr 5] = Inr [74, 0, 0, 0, 0, 135, 5]
       \<and> (\<exists>t. execute (load_program [74, 0, 0, 0, 0, 135, 5]
                  ((uvm_init 1024)\<lparr>data_memory := (replicate 1024 0)[5 := 200]\<rparr>)) = Inr (2, t)
              \<and> stack t = [200])"
proof (intro conjI impI)
  assume "0 \<le> addr \<and> addr < int (length (data_memory s))"
  with assms show "cycle s = Inr (s\<lparr>ip := ip s + 2,
      stack := butlast (stack s) @ [uint (data_memory s ! nat addr)]\<rparr>)"
    by (simp add: cycle_read Let_def)
next
  show "uint (data_memory s ! nat addr) \<le> 255"
    using uint_byte_bounds [of "data_memory s ! nat addr"] by simp
next
  assume "\<not> (0 \<le> addr \<and> addr < int (length (data_memory s)))"
  with assms show "cycle s = Inl (InvalidAddress ''READ_MEM'' addr,
      s\<lparr>ip := ip s + 2, stack := butlast (stack s)\<rparr>)"
    by (simp add: cycle_read Let_def)
next
  show "uint (code_memory s ! (ip s + 1)) AND 0x3F = uint (code_memory s ! (ip s + 1)) mod 64"
    by (rule and_3f)
next
  show "assemble_to_binary [load_instr 0, read_instr 5] = Inr [74, 0, 0, 0, 0, 135, 5]"
    by (simp add: load_instr_def read_instr_def to_binary_def bytes_add_def to_bytes4 to_bytes1)
next
  show "\<exists>t. execute (load_program [74, 0, 0, 0, 0, 135, 5]
                  ((uvm_init 1024)\<lparr>data_memory := (replicate 1024 0)[5 := 200]\<rparr>)) = Inr (2, t)
              \<and> stack t = [200]"
    by (simp add: execute_def uvm_init_def load_program_def cycle_def
        read_byte_from_code_def read_dword_from_code_def push_def pop_def Let_def)
qed simp

theorem read_mem_semantics_witness:
  "cycle \<lparr>code_memory = [74, 0, 0, 0, 0, 135, 5], program_size = 7,
          data_memory = (replicate 1024 0)[5 := 200], stack = [0], ip = 5\<rparr>
   = Inr \<lparr>code_memory = [74, 0, 0, 0, 0, 135, 5], program_size = 7,
          data_memory = (replicate 1024 0)[5 := 200], stack = [200], ip = 7\<rparr>"
  using read_mem_semantics [where s = "\<lparr>code_memory = [74, 0, 0, 0, 0, 135, 5], program_size = 7,
          data_memory = (replicate 1024 0)[5 := 200], stack = [0], ip = 5\<rparr>" and addr = 5]
  by simp

text \<open>
  C3. A \<^verbatim>\<open>WRITE_MEM\<close> instruction executed on a non-empty stack, whose four operand
  bytes are the little-endian bytes of an address \<open>a\<close> below \<open>2 ^ 32\<close> that lies inside
  the data memory, pops one value and stores \<open>value AND 0xFF\<close> at \<open>a\<close>, the address of
  the instruction's own operand (not an address from the stack); the rest of the stack
  stays, and no other byte of the data memory changes.
  \<^verbatim>\<open>load 100; load 42; write 100\<close> ends with the stack \<open>[100]\<close> and \<open>data[100] = 42\<close>;
  \<^verbatim>\<open>load 7; write 300\<close> stores 7 at address 300 and leaves address 44 at 0.
\<close>

theorem write_mem_semantics:
  assumes "program_size s = length (code_memory s)"
    and "ip s + 5 \<le> program_size s"
    and "code_memory s ! ip s = 213"
    and "take 4 (drop (ip s + 1) (code_memory s)) =
           [word_of_int a, word_of_int (a div 256), word_of_int (a div 65536),
            word_of_int (a div 16777216)]"
    and "0 \<le> a" and "a < 2 ^ 32"
    and "stack s \<noteq> []"
    and "a < int (length (data_memory s))"
  shows "cycle s = Inr (s\<lparr>ip := ip s + 5, stack := butlast (stack s),
                     data_memory := (data_memory s)[nat a := word_of_int (last (stack s) AND 0xFF)]\<rparr>)
       \<and> uint ((data_memory s)[nat a := word_of_int (last (stack s) AND 0xFF)] ! nat a)
           = last (stack s) AND 0xFF
       \<and> (\<forall>i. i \<noteq> nat a \<longrightarrow>
             (data_memory s)[nat a := word_of_int (last (stack s) AND 0xFF)] ! i = data_memory s ! i)
       \<and> assemble_to_binary [load_instr 100, load_instr 42, write_instr 100]
           = Inr [74, 100, 0, 0, 0, 74, 42, 0, 0, 0, 213, 100, 0, 0, 0]
       \<and> (\<exists>t. run [74, 100, 0, 0, 0, 74, 42, 0, 0, 0, 213, 100, 0, 0, 0] = Inr (3, t)
              \<and> stack t = [100] \<and> data_memory t ! 100 = 42)
       \<and> assemble_to_binary [load_instr 7, write_instr 300]
           = Inr [74, 7, 0, 0, 0, 213, 44, 1, 0, 0]
       \<and> (\<exists>t. run [74, 7, 0, 0, 0, 213, 44, 1, 0, 0] = Inr (2, t)
              \<and> stack t = [] \<and> data_memory t ! 300 = 7 \<and> data_memory t ! 44 = 0)"
proof (intro conjI allI impI)
  have addr: "unpack_le (take 4 (drop (ip s + 1) (code_memory s))) = a"
    unfolding assms(4) using assms(5,6) by (intro unpack_le_to_bytes4) simp_all
  show "cycle s = Inr (s\<lparr>ip := ip s + 5, stack := butlast (stack s),
      data_memory := (data_memory s)[nat a := word_of_int (last (stack s) AND 0xFF)]\<rparr>)"
    unfolding cycle_write [OF assms(1,2,3)] addr
    using assms(5,7,8) by (simp add: Let_def)
next
  from assms(5,8) have "nat a < length (data_memory s)" by simp
  then show "uint ((data_memory s)[nat a := word_of_int (last (stack s) AND 0xFF)] ! nat a)
      = last (stack s) AND 0xFF"
    by (simp add: and_ff uint_byte_of_int)
next
  fix i assume "i \<noteq> nat a"
  then show "(data_memory s)[nat a := word_of_int (last (stack s) AND 0xFF)] ! i = data_memory s ! i"
    by simp
next
  show "assemble_to_binary [load_instr 100, load_instr 42, write_instr 100]
           = Inr [74, 100, 0, 0, 0, 74, 42, 0, 0, 0, 213, 100, 0, 0, 0]"
    by (simp add: load_instr_def write_instr_def to_binary_def bytes_add_def to_bytes4 to_bytes1)
next
  show "\<exists>t. run [74, 100, 0, 0, 0, 74, 42, 0, 0, 0, 213, 100, 0, 0, 0] = Inr (3, t)
              \<and> stack t = [100] \<and> data_memory t ! 100 = 42"
    by (simp add: run_def execute_def uvm_init_def load_program_def cycle_def
        read_byte_from_code_def read_dword_from_code_def push_def pop_def Let_def)
next
  show "assemble_to_binary [load_instr 7, write_instr 300]
           = Inr [74, 7, 0, 0, 0, 213, 44, 1, 0, 0]"
    by (simp add: load_instr_def write_instr_def to_binary_def bytes_add_def to_bytes4 to_bytes1)
next
  show "\<exists>t. run [74, 7, 0, 0, 0, 213, 44, 1, 0, 0] = Inr (2, t)
              \<and> stack t = [] \<and> data_memory t ! 300 = 7 \<and> data_memory t ! 44 = 0"
    by (simp add: run_def execute_def uvm_init_def load_program_def cycle_def
        read_byte_from_code_def read_dword_from_code_def push_def pop_def Let_def)
qed

theorem write_mem_semantics_witness:
  "take 4 (drop 1 [213, 44, 1, 0, 0 :: byte]) =
     [word_of_int 300, word_of_int (300 div 256), word_of_int (300 div 65536),
      word_of_int (300 div 16777216)]
   \<and> cycle \<lparr>code_memory = [213, 44, 1, 0, 0], program_size = 5,
          data_memory = replicate 1024 0, stack = [100, 298], ip = 0\<rparr>
   = Inr \<lparr>code_memory = [213, 44, 1, 0, 0], program_size = 5,
          data_memory = (replicate 1024 0)[300 := 42], stack = [100], ip = 5\<rparr>"
  using write_mem_semantics [where s = "\<lparr>code_memory = [213, 44, 1, 0, 0], program_size = 5,
          data_memory = replicate 1024 0, stack = [100, 298], ip = 0\<rparr>" and a = 300]
  by (simp add: and_ff)

text \<open>
  C4. An \<^verbatim>\<open>SGN\<close> instruction executed on a non-empty stack pops one value as an
  address. Outside the data memory it raises the invalid-address error; otherwise it
  reads the byte there as a signed 8-bit value and pushes 1 if that is positive, -1 if
  negative and 0 if zero: the bytes 128 to 255 give -1, the bytes 1 to 127 give 1.
\<close>

theorem sgn_semantics:
  assumes "program_size s = length (code_memory s)"
    and "ip s < program_size s"
    and "code_memory s ! ip s = 154"
    and "stack s \<noteq> []"
    and "addr = last (stack s)"
  shows "(0 \<le> addr \<and> addr < int (length (data_memory s)) \<longrightarrow>
            cycle s = Inr (s\<lparr>ip := ip s + 1,
                       stack := butlast (stack s) @ [sgn_result (data_memory s ! nat addr)]\<rparr>)
            \<and> sgn_result (data_memory s ! nat addr) =
                (if 0 < sint (data_memory s ! nat addr) then 1
                 else if sint (data_memory s ! nat addr) < 0 then - 1 else 0)
            \<and> sgn_result (data_memory s ! nat addr) =
                (if data_memory s ! nat addr = 0 then 0
                 else if uint (data_memory s ! nat addr) < 128 then 1 else - 1))
       \<and> (\<not> (0 \<le> addr \<and> addr < int (length (data_memory s))) \<longrightarrow>
            cycle s = Inl (InvalidAddress ''SGN'' addr,
                       s\<lparr>ip := ip s + 1, stack := butlast (stack s)\<rparr>))"
proof (intro conjI impI)
  assume "0 \<le> addr \<and> addr < int (length (data_memory s))"
  with assms show "cycle s = Inr (s\<lparr>ip := ip s + 1,
      stack := butlast (stack s) @ [sgn_result (data_memory s ! nat addr)]\<rparr>)"
    by (simp add: cycle_sgn Let_def)
next
  show "sgn_result (data_memory s ! nat addr) =
      (if 0 < sint (data_memory s ! nat addr) then 1
       else if sint (data_memory s ! nat addr) < 0 then - 1 else 0)"
    by (simp add: sgn_result_def Let_def)
next
  show "sgn_result (data_memory s ! nat addr) =
      (if data_memory s ! nat addr = 0 then 0
       else if uint (data_memory s ! nat addr) < 128 then 1 else - 1)"
    by (rule sgn_result_cases)
next
  assume "\<not> (0 \<le> addr \<and> addr < int (length (data_memory s)))"
  with assms show "cycle s = Inl (InvalidAddress ''SGN'' addr,
      s\<lparr>ip := ip s + 1, stack := butlast (stack s)\<rparr>)"
    by (simp add: cycle_sgn Let_def)
qed

theorem sgn_semantics_witness:
  "cycle \<lparr>code_memory = [154], program_size = 1,
          data_memory = (replicate 1024 0)[3 := 200], stack = [9, 3], ip = 0\<rparr>
   = Inr \<lparr>code_memory = [154], program_size = 1,
          data_memory = (replicate 1024 0)[3 := 200], stack = [9, - 1], ip = 1\<rparr>"
  using sgn_semantics [where s = "\<lparr>code_memory = [154], program_size = 1,
          data_memory = (replicate 1024 0)[3 := 200], stack = [9, 3], ip = 0\<rparr>" and addr = 3]
  by simp

text \<open>
  C6. On an empty stack a \<^verbatim>\<open>READ_MEM\<close>, \<^verbatim>\<open>WRITE_MEM\<close> or \<^verbatim>\<open>SGN\<close> instruction raises
  the stack underflow, and the state it leaves differs from the one before only in
  \<open>ip\<close>: the data memory is untouched.
\<close>

theorem empty_stack_underflow:
  assumes "program_size s = length (code_memory s)"
    and "stack s = []"
    and "(code_memory s ! ip s = 135 \<and> ip s + 2 \<le> program_size s \<and> k = 2)
       \<or> (code_memory s ! ip s = 213 \<and> ip s + 5 \<le> program_size s \<and> k = 5)
       \<or> (code_memory s ! ip s = 154 \<and> ip s + 1 \<le> program_size s \<and> k = 1)"
  shows "cycle s = Inl (StackUnderflow, s\<lparr>ip := ip s + k\<rparr>)
       \<and> data_memory (s\<lparr>ip := ip s + k\<rparr>) = data_memory s"
  using assms
  by (auto simp: cycle_read cycle_write cycle_sgn)

theorem empty_stack_underflow_witness:
  "cycle \<lparr>code_memory = [213, 100, 0, 0, 0], program_size = 5,
          data_memory = replicate 1024 0, stack = [], ip = 0\<rparr>
   = Inl (StackUnderflow, \<lparr>code_memory = [213, 100, 0, 0, 0], program_size = 5,
          data_memory = replicate 1024 0, stack = [], ip = 5\<rparr>)"
  using empty_stack_underflow [where s = "\<lparr>code_memory = [213, 100, 0, 0, 0], program_size = 5,
          data_memory = replicate 1024 0, stack = [], ip = 0\<rparr>" and k = 5]
  by simp

text \<open>
  C10. When \<^verbatim>\<open>WRITE_MEM\<close> raises the invalid-address error on a non-empty stack, the
  value is already popped: the stack left behind is one element shorter, and the data
  memory is unchanged.
\<close>

theorem write_mem_invalid_address_pops:
  assumes "program_size s = length (code_memory s)"
    and "ip s + 5 \<le> program_size s"
    and "code_memory s ! ip s = 213"
    and "stack s \<noteq> []"
    and "addr = unpack_le (take 4 (drop (ip s + 1) (code_memory s)))"
    and "\<not> addr < int (length (data_memory s))"
  shows "cycle s = Inl (InvalidAddress ''WRITE_MEM'' addr,
                     s\<lparr>ip := ip s + 5, stack := butlast (stack s)\<rparr>)
       \<and> length (stack (s\<lparr>ip := ip s + 5, stack := butlast (stack s)\<rparr>)) + 1 = length (stack s)
       \<and> data_memory (s\<lparr>ip := ip s + 5, stack := butlast (stack s)\<rparr>) = data_memory s"
  using assms
  by (simp add: cycle_write Let_def)

theorem write_mem_invalid_address_pops_witness:
  "cycle \<lparr>code_memory = [213, 0, 4, 0, 0], program_size = 5,
          data_memory = replicate 1024 0, stack = [7, 8], ip = 0\<rparr>
   = Inl (InvalidAddress ''WRITE_MEM'' 1024, \<lparr>code_memory = [213, 0, 4, 0, 0], program_size = 5,
          data_memory = replicate 1024 0, stack = [7], ip = 5\<rparr>)"
  using write_mem_invalid_address_pops [where s = "\<lparr>code_memory = [213, 0, 4, 0, 0], program_size = 5,
          data_memory = replicate 1024 0, stack = [7, 8], ip = 0\<rparr>" and addr = 1024]
  by simp

section \<open>The loop of the interpreter\<close>

lemma cycle_ok_frame:
  assumes "cycle s = Inr s'"
  shows "code_memory s' = code_memory s \<and> program_size s' = program_size s \<and> ip s < ip s'"
  using assms
  by (auto simp: cycle_def read_byte_from_code_def read_dword_from_code_def
        push_def pop_def Let_def
      split: if_splits sum.splits prod.splits)

lemma drop_ip_Cons:
  assumes "program_size s = length (code_memory s)" "ip s < program_size s"
  shows "drop (ip s) (code_memory s) = code_memory s ! ip s # drop (ip s + 1) (code_memory s)"
  using assms by (simp add: Cons_nth_drop_Suc)

lemma instr_count_load:
  "instr_count (74 # bs) =
     (if length bs < 4 then None else map_option Suc (instr_count (drop 4 bs)))"
  by simp

lemma instr_count_write:
  "instr_count (213 # bs) =
     (if length bs < 4 then None else map_option Suc (instr_count (drop 4 bs)))"
  by simp

lemma instr_count_read:
  "instr_count (135 # bs) =
     (if length bs < 1 then None else map_option Suc (instr_count (drop 1 bs)))"
  by simp

lemma instr_count_sgn: "instr_count (154 # bs) = map_option Suc (instr_count bs)"
  by simp

lemma instr_count_other: "b \<notin> {74, 135, 213, 154} \<Longrightarrow> instr_count (b # bs) = None"
  by simp

lemma cycle_wf:
  assumes inv: "program_size s = length (code_memory s)"
    and run: "ip s < program_size s"
    and wf: "instr_count (drop (ip s) (code_memory s)) = Some n"
  shows "(\<exists>s'. cycle s = Inr s' \<and> ip s' \<le> program_size s
            \<and> (\<exists>m. n = Suc m \<and> instr_count (drop (ip s') (code_memory s)) = Some m))
       \<or> (\<exists>s'. cycle s = Inl (StackUnderflow, s'))
       \<or> (\<exists>k a s'. cycle s = Inl (InvalidAddress k a, s'))"
proof -
  let ?b = "code_memory s ! ip s"
  let ?rest = "drop (ip s + 1) (code_memory s)"
  have len: "length ?rest = program_size s - (ip s + 1)" using inv by simp
  from wf drop_ip_Cons [OF inv run]
  have c: "instr_count (?b # ?rest) = Some n" by simp
  consider (ld) "?b = 74" | (rd) "?b = 135" | (wr) "?b = 213" | (sg) "?b = 154"
    | (other) "?b \<notin> {74, 135, 213, 154}" by auto
  then show ?thesis
  proof cases
    case ld
    from c have c': "instr_count (74 # ?rest) = Some n" by (simp only: ld)
    from c' len run have sz: "ip s + 5 \<le> program_size s"
      by (simp only: instr_count_load split: if_splits) simp
    from c' len sz have m: "map_option Suc (instr_count (drop (ip s + 5) (code_memory s))) = Some n"
      by (simp only: instr_count_load split: if_splits) (simp add: add.commute)
    from m sz show ?thesis
      by (auto simp: cycle_load [OF inv sz ld])
  next
    case rd
    from c have c': "instr_count (135 # ?rest) = Some n" by (simp only: rd)
    from c' len run have sz: "ip s + 2 \<le> program_size s"
      by (simp only: instr_count_read split: if_splits) simp
    from c' len sz have m: "map_option Suc (instr_count (drop (ip s + 2) (code_memory s))) = Some n"
      by (simp only: instr_count_read split: if_splits) (simp add: add.commute)
    from m sz show ?thesis
      by (auto simp: cycle_read [OF inv sz rd] Let_def)
  next
    case wr
    from c have c': "instr_count (213 # ?rest) = Some n" by (simp only: wr)
    from c' len run have sz: "ip s + 5 \<le> program_size s"
      by (simp only: instr_count_write split: if_splits) simp
    from c' len sz have m: "map_option Suc (instr_count (drop (ip s + 5) (code_memory s))) = Some n"
      by (simp only: instr_count_write split: if_splits) (simp add: add.commute)
    from m sz show ?thesis
      by (auto simp: cycle_write [OF inv sz wr] Let_def)
  next
    case sg
    from c have c': "instr_count (154 # ?rest) = Some n" by (simp only: sg)
    then have m: "map_option Suc (instr_count (drop (ip s + 1) (code_memory s))) = Some n"
      by (simp only: instr_count_sgn)
    from run have sz: "ip s + 1 \<le> program_size s" by simp
    from m sz show ?thesis
      by (auto simp: cycle_sgn [OF inv sz sg] Let_def)
  next
    case other
    from c instr_count_other [OF other, of ?rest] show ?thesis by simp
  qed
qed

lemma execute_loop_wf:
  assumes "program_size s = length (code_memory s)"
    and "ip s \<le> program_size s"
    and "instr_count (drop (ip s) (code_memory s)) = Some n"
  shows "(\<exists>s'. execute_loop s c = Inr (c + n, s') \<and> ip s' = program_size s
            \<and> code_memory s' = code_memory s)
       \<or> (\<exists>s'. execute_loop s c = Inl (StackUnderflow, s'))
       \<or> (\<exists>k a s'. execute_loop s c = Inl (InvalidAddress k a, s'))"
  using assms
proof (induction s c arbitrary: n rule: execute_loop.induct)
  case (1 s c)
  show ?case
  proof (cases "ip s < program_size s")
    case False
    with "1.prems" have "ip s = program_size s" by simp
    with "1.prems" have "n = 0" by simp
    with False \<open>ip s = program_size s\<close> show ?thesis
      by (simp add: execute_loop.simps [of s c])
  next
    case True
    from cycle_wf [OF "1.prems"(1) True "1.prems"(3)]
    consider (ok) s' m where "cycle s = Inr s'" "ip s' \<le> program_size s" "n = Suc m"
        "instr_count (drop (ip s') (code_memory s)) = Some m"
      | (under) s' where "cycle s = Inl (StackUnderflow, s')"
      | (addr) k a s' where "cycle s = Inl (InvalidAddress k a, s')"
      by blast
    then show ?thesis
    proof cases
      case ok
      from cycle_ok_frame [OF ok(1)]
      have fr: "code_memory s' = code_memory s" "program_size s' = program_size s" by simp_all
      have "(\<exists>t. execute_loop s' (c + 1) = Inr (c + 1 + m, t) \<and> ip t = program_size s'
                \<and> code_memory t = code_memory s')
          \<or> (\<exists>t. execute_loop s' (c + 1) = Inl (StackUnderflow, t))
          \<or> (\<exists>k a t. execute_loop s' (c + 1) = Inl (InvalidAddress k a, t))"
        using "1.IH" [OF True ok(1), of m] "1.prems"(1) ok(2,4) fr by simp
      then show ?thesis
        using True ok(1,3) fr by (simp add: execute_loop.simps [of s c])
    next
      case under
      with True show ?thesis by (simp add: execute_loop.simps [of s c])
    next
      case addr
      with True show ?thesis by (simp add: execute_loop.simps [of s c])
    qed
  qed
qed

lemma cycle_error_kind:
  assumes "program_size s = length (code_memory s)"
    and "ip s < program_size s"
    and "cycle s = Inl (e, s')"
  shows "e \<noteq> IndexError \<and> e \<noteq> StructError"
  using assms
  by (auto simp: cycle_def read_byte_from_code_def read_dword_from_code_def
        push_def pop_def Let_def
      split: if_splits sum.splits prod.splits)

lemma cycle_unknown_location:
  assumes "program_size s = length (code_memory s)"
    and "ip s < program_size s"
    and "cycle s = Inl (UnknownOpcode op p, s')"
  shows "p = ip s \<and> ip s' = p + 1 \<and> op = uint (code_memory s ! p)
       \<and> op \<notin> {74, 135, 213, 154}"
  using assms
  by (auto simp: cycle_def read_byte_from_code_def read_dword_from_code_def
        push_def pop_def Let_def
      split: if_splits sum.splits prod.splits)

lemma execute_loop_error_kind:
  assumes "program_size s = length (code_memory s)"
    and "execute_loop s c = Inl (e, s')"
  shows "e \<noteq> IndexError \<and> e \<noteq> StructError"
  using assms
proof (induction s c rule: execute_loop.induct)
  case (1 s c)
  show ?case
  proof (cases "ip s < program_size s")
    case False
    with "1.prems"(2) show ?thesis by (simp add: execute_loop.simps [of s c])
  next
    case True
    show ?thesis
    proof (cases "cycle s")
      case (Inl x)
      with True "1.prems"(2) have "cycle s = Inl (e, s')"
        by (simp add: execute_loop.simps [of s c])
      then show ?thesis by (rule cycle_error_kind [OF "1.prems"(1) True])
    next
      case (Inr t)
      from cycle_ok_frame [OF Inr] "1.prems"(1)
      have inv: "program_size t = length (code_memory t)" by simp
      from True Inr "1.prems"(2) have "execute_loop t (c + 1) = Inl (e, s')"
        by (simp add: execute_loop.simps [of s c])
      then show ?thesis by (rule "1.IH" [OF True Inr inv])
    qed
  qed
qed

lemma execute_loop_unknown_location:
  assumes "program_size s = length (code_memory s)"
    and "execute_loop s c = Inl (UnknownOpcode op p, s')"
  shows "ip s \<le> p \<and> p < program_size s \<and> ip s' = p + 1
       \<and> op = uint (code_memory s ! p) \<and> op \<notin> {74, 135, 213, 154}"
  using assms
proof (induction s c rule: execute_loop.induct)
  case (1 s c)
  show ?case
  proof (cases "ip s < program_size s")
    case False
    with "1.prems"(2) show ?thesis by (simp add: execute_loop.simps [of s c])
  next
    case True
    show ?thesis
    proof (cases "cycle s")
      case (Inl x)
      with True "1.prems"(2) have "cycle s = Inl (UnknownOpcode op p, s')"
        by (simp add: execute_loop.simps [of s c])
      from cycle_unknown_location [OF "1.prems"(1) True this]
      have "p = ip s" and rest: "ip s' = p + 1" "op = uint (code_memory s ! p)"
        "op \<notin> {74, 135, 213, 154}" by blast+
      from \<open>p = ip s\<close> True have "ip s \<le> p" "p < program_size s" by simp_all
      with rest show ?thesis by blast
    next
      case (Inr t)
      from cycle_ok_frame [OF Inr]
      have fr: "code_memory t = code_memory s" "program_size t = program_size s" "ip s < ip t"
        by blast+
      from fr "1.prems"(1) have inv: "program_size t = length (code_memory t)" by simp
      from True Inr "1.prems"(2) have "execute_loop t (c + 1) = Inl (UnknownOpcode op p, s')"
        by (simp add: execute_loop.simps [of s c])
      from "1.IH" [OF True Inr inv this]
      have ih: "ip t \<le> p" "p < program_size t" "ip s' = p + 1"
        "op = uint (code_memory t ! p)" "op \<notin> {74, 135, 213, 154}" by blast+
      from ih(1) fr(3) have "ip s \<le> p" by simp
      moreover from ih(2) fr(2) have "p < program_size s" by simp
      moreover from ih(4) fr(1) have "op = uint (code_memory s ! p)" by simp
      ultimately show ?thesis using ih(3,5) by blast
    qed
  qed
qed

text \<open>
  C8, amended. The run of a well-formed binary program always ends, in one of two ways:
  in the halted state, with \<open>ip\<close> equal to the program length, after exactly as many
  cycles as the program has instructions; or with the stack-underflow or
  invalid-address error of one of its instructions. Every cycle that completes moves
  \<open>ip\<close> strictly forward. Without the second way the statement fails: the well-formed
  program \<^verbatim>\<open>sgn; sgn\<close> stops in its first cycle with a stack underflow, at \<open>ip = 1\<close>.
\<close>

theorem wf_program_halts:
  assumes "program_size s = length (code_memory s)"
    and "ip s \<le> program_size s"
    and "instr_count (drop (ip s) (code_memory s)) = Some n"
  shows "((\<exists>s'. execute s = Inr (n, s') \<and> ip s' = program_size s)
          \<or> (\<exists>s'. execute s = Inl (StackUnderflow, s'))
          \<or> (\<exists>k a s'. execute s = Inl (InvalidAddress k a, s')))
       \<and> (\<forall>t t'. cycle t = Inr t' \<longrightarrow> ip t < ip t')"
proof
  from execute_loop_wf [OF assms, of 0]
  show "(\<exists>s'. execute s = Inr (n, s') \<and> ip s' = program_size s)
      \<or> (\<exists>s'. execute s = Inl (StackUnderflow, s'))
      \<or> (\<exists>k a s'. execute s = Inl (InvalidAddress k a, s'))"
    unfolding execute_def by auto
next
  show "\<forall>t t'. cycle t = Inr t' \<longrightarrow> ip t < ip t'"
    using cycle_ok_frame by blast
qed

theorem wf_program_halts_witness:
  "instr_count [74, 100, 0, 0, 0, 74, 42, 0, 0, 0, 213, 100, 0, 0, 0] = Some 3
   \<and> ((\<exists>s'. run [74, 100, 0, 0, 0, 74, 42, 0, 0, 0, 213, 100, 0, 0, 0] = Inr (3, s') \<and> ip s' = 15)
      \<or> (\<exists>s'. run [74, 100, 0, 0, 0, 74, 42, 0, 0, 0, 213, 100, 0, 0, 0] = Inl (StackUnderflow, s'))
      \<or> (\<exists>k a s'. run [74, 100, 0, 0, 0, 74, 42, 0, 0, 0, 213, 100, 0, 0, 0]
                     = Inl (InvalidAddress k a, s')))"
proof -
  let ?p = "[74, 100, 0, 0, 0, 74, 42, 0, 0, 0, 213, 100, 0, 0, 0] :: byte list"
  let ?s = "load_program ?p (uvm_init 1024)"
  have h1: "program_size ?s = length (code_memory ?s)"
    by (simp add: load_program_def uvm_init_def)
  have h2: "ip ?s \<le> program_size ?s"
    by (simp add: load_program_def uvm_init_def)
  have c: "instr_count ?p = Some 3"
    by simp
  then have h3: "instr_count (drop (ip ?s) (code_memory ?s)) = Some 3"
    by (simp add: load_program_def uvm_init_def)
  have sz: "program_size ?s = 15"
    by (simp add: load_program_def uvm_init_def)
  from wf_program_halts [OF h1 h2 h3] c show ?thesis
    unfolding run_def sz by blast
qed

text \<open>
  The well-formed program \<^verbatim>\<open>sgn; sgn\<close> on a fresh interpreter: two instructions, and the
  run stops in the first with a stack underflow, \<open>ip\<close> at 1 of 2.
\<close>

theorem wf_program_may_abort_counterexample:
  "instr_count [154, 154] = Some 2
   \<and> run [154, 154] = Inl (StackUnderflow,
       \<lparr>code_memory = [154, 154], program_size = 2, data_memory = replicate 1024 0,
        stack = [], ip = 1\<rparr>)"
  by (simp add: run_def execute_def uvm_init_def load_program_def cycle_def
      read_byte_from_code_def pop_def)

text \<open>
  C9, amended. Of the errors of a run only the unknown-opcode error carries an
  instruction offset: the offset at which the offending instruction starts, where the
  code holds the reported byte, which is none of the four opcodes; \<open>ip\<close> is one past
  it when the error is raised. Every other error of a run is one of the two truncation
  errors, the stack underflow or an invalid address, and carries no instruction offset.
  As stated for all four kinds the claim fails: the errors of \<^verbatim>\<open>sgn\<close> on an empty stack,
  of a truncated \<^verbatim>\<open>load\<close> and of \<^verbatim>\<open>sgn\<close> on address 1024 carry none.
\<close>

theorem error_location:
  assumes "program_size s = length (code_memory s)"
    and "execute s = Inl (e, s')"
  shows "(\<forall>op p. e = UnknownOpcode op p \<longrightarrow>
            error_ip e = Some p \<and> ip s \<le> p \<and> p < program_size s \<and> ip s' = p + 1
            \<and> op = uint (code_memory s ! p) \<and> op \<notin> {74, 135, 213, 154})
       \<and> ((\<forall>op p. e \<noteq> UnknownOpcode op p) \<longrightarrow>
            error_ip e = None
            \<and> (e = IpBeyondEnd \<or> e = NotEnoughBytes \<or> e = StackUnderflow
               \<or> (\<exists>k a. e = InvalidAddress k a)))"
proof -
  from assms(2) have run: "execute_loop s 0 = Inl (e, s')" by (simp add: execute_def)
  have kind: "e \<noteq> IndexError \<and> e \<noteq> StructError"
    by (rule execute_loop_error_kind [OF assms(1) run])
  show ?thesis
  proof (intro conjI allI impI)
    fix op p assume e: "e = UnknownOpcode op p"
    from run e have "execute_loop s 0 = Inl (UnknownOpcode op p, s')" by simp
    from execute_loop_unknown_location [OF assms(1) this]
    have loc: "ip s \<le> p" "p < program_size s" "ip s' = p + 1"
      "op = uint (code_memory s ! p)" "op \<notin> {74, 135, 213, 154}" by blast+
    show "error_ip e = Some p" using e by simp
    show "ip s \<le> p" by (rule loc(1))
    show "p < program_size s" by (rule loc(2))
    show "ip s' = p + 1" by (rule loc(3))
    show "op = uint (code_memory s ! p)" by (rule loc(4))
    show "op \<notin> {74, 135, 213, 154}" by (rule loc(5))
  next
    assume "\<forall>op p. e \<noteq> UnknownOpcode op p"
    then show "error_ip e = None" by (cases e) simp_all
  next
    assume "\<forall>op p. e \<noteq> UnknownOpcode op p"
    with kind show "e = IpBeyondEnd \<or> e = NotEnoughBytes \<or> e = StackUnderflow
        \<or> (\<exists>k a. e = InvalidAddress k a)"
      by (cases e) simp_all
  qed
qed

theorem error_location_witness:
  "run [74, 0, 4, 0, 0, 7, 3] = Inl (UnknownOpcode 7 5,
       \<lparr>code_memory = [74, 0, 4, 0, 0, 7, 3], program_size = 7, data_memory = replicate 1024 0,
        stack = [1024], ip = 6\<rparr>)
   \<and> error_ip (UnknownOpcode 7 5) = Some 5"
proof -
  let ?s = "load_program [74, 0, 4, 0, 0, 7, 3] (uvm_init 1024)"
  let ?t = "\<lparr>code_memory = [74, 0, 4, 0, 0, 7, 3], program_size = 7,
        data_memory = replicate 1024 0, stack = [1024], ip = 6\<rparr>"
  have h1: "program_size ?s = length (code_memory ?s)"
    by (simp add: load_program_def uvm_init_def)
  have h2: "execute ?s = Inl (UnknownOpcode 7 5, ?t)"
    by (simp add: execute_def uvm_init_def load_program_def cycle_def
      read_byte_from_code_def read_dword_from_code_def push_def)
  from error_location [OF h1 h2] h2 show ?thesis
    by (simp add: run_def)
qed

text \<open>
  Three runs on a fresh interpreter whose errors carry no instruction offset: \<^verbatim>\<open>sgn\<close> on
  the empty stack, a \<^verbatim>\<open>load\<close> cut after one operand byte, and \<^verbatim>\<open>load 1024; sgn\<close>.
\<close>

theorem errors_without_ip_counterexample:
  "run [154] = Inl (StackUnderflow,
       \<lparr>code_memory = [154], program_size = 1, data_memory = replicate 1024 0,
        stack = [], ip = 1\<rparr>)
   \<and> error_ip StackUnderflow = None
   \<and> run [74, 1] = Inl (NotEnoughBytes,
       \<lparr>code_memory = [74, 1], program_size = 2, data_memory = replicate 1024 0,
        stack = [], ip = 1\<rparr>)
   \<and> error_ip NotEnoughBytes = None
   \<and> run [74, 0, 4, 0, 0, 154] = Inl (InvalidAddress ''SGN'' 1024,
       \<lparr>code_memory = [74, 0, 4, 0, 0, 154], program_size = 6, data_memory = replicate 1024 0,
        stack = [], ip = 6\<rparr>)
   \<and> error_ip (InvalidAddress ''SGN'' 1024) = None"
  by (simp add: run_def execute_def uvm_init_def load_program_def cycle_def
      read_byte_from_code_def read_dword_from_code_def push_def pop_def)

end
